theory Spec2Isabelle
  imports Main
begin

section \<open>Text layer: characters, lines and Python's string operations\<close>

text \<open>
  The script \<^verbatim>\<open>scripts/prepend-license-notice.py\<close> reads and rewrites text files.
  A file is modelled by its text, a list of characters (\<^typ>\<open>string\<close>); a character
  stands for a code point below 256. Decoding errors and other I/O faults are outside
  the model. The platform is POSIX, where writing a line feed writes a line feed.
\<close>

definition LF :: char where
  "LF = CHR 0x0A"

definition CR :: char where
  "CR = CHR 0x0D"

text \<open>
  Files are opened in text mode without a \<^verbatim>\<open>newline\<close> argument, so reading translates
  every \<^verbatim>\<open>\r\n\<close> and every lone \<^verbatim>\<open>\r\<close> into \<^verbatim>\<open>\n\<close>.
\<close>

fun universal_newlines :: "string \<Rightarrow> string" where
  "universal_newlines [] = []"
| "universal_newlines [c] = [if c = CR then LF else c]"
| "universal_newlines (c # d # cs) =
     (if c = CR \<and> d = LF then LF # universal_newlines cs
      else if c = CR then LF # universal_newlines (d # cs)
      else c # universal_newlines (d # cs))"

text \<open>Cutting a text into lines, each line keeping its terminating line feed.\<close>

fun keepends :: "string \<Rightarrow> string list" where
  "keepends [] = []"
| "keepends (c # cs) =
     (if c = LF then [c] # keepends cs
      else (case keepends cs of [] \<Rightarrow> [[c]] | l # ls \<Rightarrow> (c # l) # ls))"

text \<open>\<^verbatim>\<open>f.readlines()\<close> on a file opened for reading in text mode.\<close>

definition readlines :: "string \<Rightarrow> string list" where
  "readlines content = keepends (universal_newlines content)"

text \<open>\<^verbatim>\<open>f.readline()\<close> on the lines that are still unread: the empty string at the end.\<close>

fun readline :: "string list \<Rightarrow> string \<times> string list" where
  "readline [] = ([], [])"
| "readline (l # ls) = (l, ls)"

text \<open>\<^verbatim>\<open>f.writelines(lines)\<close> on a truncated file.\<close>

definition writelines :: "string list \<Rightarrow> string" where
  "writelines ls = concat ls"

text \<open>\<^verbatim>\<open>s.startswith(p)\<close> and \<^verbatim>\<open>m in s\<close>.\<close>

fun startswith :: "string \<Rightarrow> string \<Rightarrow> bool" where
  "startswith s [] = True"
| "startswith [] (p # ps) = False"
| "startswith (c # cs) (p # ps) = (c = p \<and> startswith cs ps)"

fun str_in :: "string \<Rightarrow> string \<Rightarrow> bool" where
  "str_in m [] = (m = [])"
| "str_in m (c # cs) = (startswith (c # cs) m \<or> str_in m cs)"

text \<open>\<^verbatim>\<open>c.isspace()\<close> for the code points below 256, and \<^verbatim>\<open>s.strip()\<close>.\<close>

definition isspace :: "char \<Rightarrow> bool" where
  "isspace c =
     (let n = (of_char c :: nat)
      in (9 \<le> n \<and> n \<le> 13) \<or> (28 \<le> n \<and> n \<le> 32) \<or> n = 133 \<or> n = 160)"

definition strip :: "string \<Rightarrow> string" where
  "strip s = rev (dropWhile isspace (rev (dropWhile isspace s)))"

text \<open>
  \<^verbatim>\<open>s.splitlines()\<close>: the line boundaries of \<^verbatim>\<open>str\<close> below code point 256 are
  \<^verbatim>\<open>\n\<close>, \<^verbatim>\<open>\r\<close>, \<^verbatim>\<open>\r\n\<close>, \<^verbatim>\<open>\v\<close>, \<^verbatim>\<open>\f\<close>, \<^verbatim>\<open>\x1c\<close>, \<^verbatim>\<open>\x1d\<close>, \<^verbatim>\<open>\x1e\<close>
  and \<^verbatim>\<open>\x85\<close>; the boundaries are not part of the lines.
\<close>

definition is_linebreak :: "char \<Rightarrow> bool" where
  "is_linebreak c =
     (let n = (of_char c :: nat)
      in (10 \<le> n \<and> n \<le> 13) \<or> (28 \<le> n \<and> n \<le> 30) \<or> n = 133)"

fun splitlines :: "string \<Rightarrow> string list" where
  "splitlines [] = []"
| "splitlines [c] = (if is_linebreak c then [[]] else [[c]])"
| "splitlines (c # d # cs) =
     (if c = CR \<and> d = LF then [] # splitlines cs
      else if is_linebreak c then [] # splitlines (d # cs)
      else (case splitlines (d # cs) of [] \<Rightarrow> [[c]] | l # ls \<Rightarrow> (c # l) # ls))"

text \<open>\<^verbatim>\<open>s.lower()\<close> for the code points below 256.\<close>

definition lower_char :: "char \<Rightarrow> char" where
  "lower_char c =
     (let n = (of_char c :: nat)
      in if (65 \<le> n \<and> n \<le> 90) \<or> (192 \<le> n \<and> n \<le> 222 \<and> n \<noteq> 215)
         then char_of (n + 32) else c)"

definition lower :: "string \<Rightarrow> string" where
  "lower s = map lower_char s"

text \<open>
  Python's list operations on an integer index: \<^verbatim>\<open>xs[:i]\<close> and \<^verbatim>\<open>xs[i:]\<close> count a
  negative index from the end and clamp; \<^verbatim>\<open>xs[i]\<close> counts a negative index from the
  end and raises \<^verbatim>\<open>IndexError\<close> out of range.
\<close>

datatype py_error = IndexError | OSError | SystemExit int

definition slice_index :: "'a list \<Rightarrow> int \<Rightarrow> nat" where
  "slice_index xs i =
     (if i < 0 then nat (int (length xs) + i) else min (nat i) (length xs))"

definition slice_to :: "'a list \<Rightarrow> int \<Rightarrow> 'a list" where
  "slice_to xs i = take (slice_index xs i) xs"

definition slice_from :: "'a list \<Rightarrow> int \<Rightarrow> 'a list" where
  "slice_from xs i = drop (slice_index xs i) xs"

definition item :: "'a list \<Rightarrow> int \<Rightarrow> py_error + 'a" where
  "item xs i =
     (if 0 \<le> i \<and> i < int (length xs) then Inr (xs ! nat i)
      else if i < 0 \<and> - int (length xs) \<le> i then Inr (xs ! nat (int (length xs) + i))
      else Inl IndexError)"

section \<open>Configuration\<close>

definition NOTICE :: string where
  "NOTICE = ''This file is licensed under the GNU GPL v3.'' @ [LF] @
            ''Copyright (C) 2026 Guanyuming He.'' @ [LF]"

definition NOTICE_MARKER :: string where
  "NOTICE_MARKER = ''This file is licensed under the GNU GPL v3''"

definition C_EXTS :: "string list" where
  "C_EXTS = [''.c'', ''.cpp'', ''.h'', ''.hpp'']"

definition SCRIPT_EXTS :: "string list" where
  "SCRIPT_EXTS = [''.sh'', ''.bash'', ''.py'']"

definition TEX_EXTS :: "string list" where
  "TEX_EXTS = [''.tex'']"

section \<open>Inserting the notice\<close>

text \<open>
  \<^verbatim>\<open>insert_notice(file_path, prefix, insert_line)\<close>: the function maps the text of the
  file to the text written back.
\<close>

definition notice_lines :: "string \<Rightarrow> string list" where
  "notice_lines prefix = map (\<lambda>line. prefix @ line @ [LF]) (splitlines NOTICE)"

definition insert_index :: "string list \<Rightarrow> int \<Rightarrow> int" where
  "insert_index lines insert_line = max 0 (min insert_line (int (length lines)))"

definition insert_notice :: "string \<Rightarrow> string \<Rightarrow> int \<Rightarrow> string" where
  "insert_notice content prefix insert_line =
     (let lines = readlines content;
          ix = insert_index lines insert_line
      in writelines (slice_to lines ix @ notice_lines prefix @ [[LF]] @ slice_from lines ix))"

section \<open>Detecting and removing a notice\<close>

text \<open>
  \<^verbatim>\<open>has_file_notice(file_path, end)\<close>: the loop over \<^verbatim>\<open>range(end)\<close> reads one line
  in each round and returns the round's number at the first line with the marker.
\<close>

fun has_file_notice_loop :: "string list \<Rightarrow> int list \<Rightarrow> int" where
  "has_file_notice_loop f [] = - 1"
| "has_file_notice_loop f (ln # lns) =
     (let (line, f') = readline f
      in if str_in ''This file is licensed under the GNU GPL v3'' line then ln
         else has_file_notice_loop f' lns)"

definition has_file_notice :: "string \<Rightarrow> int \<Rightarrow> int" where
  "has_file_notice content end = has_file_notice_loop (readlines content) [0..end - 1]"

text \<open>
  \<^verbatim>\<open>remove_existing_notice(path, start)\<close>: the loop over \<^verbatim>\<open>range(start, len(lines))\<close>
  with its flag \<^verbatim>\<open>skipping\<close> (0: scanning, 1: skipping, 2: copying) and its list
  \<^verbatim>\<open>out\<close>. An exception leaves the loop before the file is rewritten.
\<close>

fun remove_loop :: "string list \<Rightarrow> int list \<Rightarrow> nat \<Rightarrow> string list \<Rightarrow> py_error + string list" where
  "remove_loop lines [] skipping out = Inr out"
| "remove_loop lines (i # is) skipping out =
     (case item lines i of
        Inl e \<Rightarrow> Inl e
      | Inr l \<Rightarrow>
          if skipping = 0 then
            (if str_in NOTICE_MARKER l then remove_loop lines is 1 out
             else remove_loop lines is 0 (out @ [l]))
          else if skipping = 1 then
            (if strip l = [] then remove_loop lines is 2 out
             else remove_loop lines is 1 out)
          else remove_loop lines is skipping (out @ [l]))"

definition remove_existing_notice :: "string \<Rightarrow> int \<Rightarrow> py_error + string" where
  "remove_existing_notice content start =
     (let lines = readlines content;
          out = slice_to lines start
      in case remove_loop lines [start..int (length lines) - 1] 0 out of
           Inl e \<Rightarrow> Inl e
         | Inr out' \<Rightarrow> Inr (writelines out'))"

section \<open>The per-file decision\<close>

text \<open>
  A \<^verbatim>\<open>pathlib.Path\<close> on POSIX is a root (empty, \<^verbatim>\<open>/\<close> or \<^verbatim>\<open>//\<close>) and the
  components behind it. \<^verbatim>\<open>Path(p)\<close> cuts the string at every \<^verbatim>\<open>/\<close> and drops the
  empty components and the components \<^verbatim>\<open>.\<close>; exactly two leading slashes are a root of
  their own. \<^verbatim>\<open>str(path)\<close> is what the operating system is asked about.
\<close>

datatype path = PurePath string "string list"

fun split_sep :: "string \<Rightarrow> string list" where
  "split_sep [] = [[]]"
| "split_sep (c # cs) =
     (if c = CHR ''/'' then [] # split_sep cs
      else (case split_sep cs of [] \<Rightarrow> [[c]] | l # ls \<Rightarrow> (c # l) # ls))"

fun join_sep :: "string list \<Rightarrow> string" where
  "join_sep [] = []"
| "join_sep [x] = x"
| "join_sep (x # y # ys) = x @ ''/'' @ join_sep (y # ys)"

definition path_root :: "string \<Rightarrow> string" where
  "path_root p =
     (if \<not> startswith p ''/'' then []
      else if \<not> startswith p ''//'' \<or> startswith p ''///'' then ''/''
      else ''//'')"

definition Path :: "string \<Rightarrow> path" where
  "Path p = PurePath (path_root p) (filter (\<lambda>x. x \<noteq> [] \<and> x \<noteq> ''.'') (split_sep p))"

fun path_str :: "path \<Rightarrow> string" where
  "path_str (PurePath root parts) =
     (if root = [] \<and> parts = [] then ''.'' else root @ join_sep parts)"

fun is_absolute :: "path \<Rightarrow> bool" where
  "is_absolute (PurePath root parts) = (root \<noteq> [])"

text \<open>\<^verbatim>\<open>root / path\<close>: an absolute right operand replaces the left one.\<close>

fun joinpath :: "path \<Rightarrow> path \<Rightarrow> path" where
  "joinpath (PurePath root parts) (PurePath root' parts') =
     (if root' \<noteq> [] then PurePath root' parts' else PurePath root (parts @ parts'))"

text \<open>\<^verbatim>\<open>Path.name\<close> and \<^verbatim>\<open>Path.suffix\<close> (CPython up to 3.13).\<close>

fun path_name :: "path \<Rightarrow> string" where
  "path_name (PurePath root parts) = (if parts = [] then [] else last parts)"

definition rfind_dot :: "string \<Rightarrow> int" where
  "rfind_dot name =
     (if CHR ''.'' \<in> set name
      then int (length name) - 1 - int (length (takeWhile (\<lambda>c. c \<noteq> CHR ''.'') (rev name)))
      else - 1)"

definition path_suffix :: "path \<Rightarrow> string" where
  "path_suffix p =
     (let name = path_name p; i = rfind_dot name
      in if 0 < i \<and> i < int (length name) - 1 then drop (nat i) name else [])"

text \<open>
  The chain of tests in \<^verbatim>\<open>decide_notice\<close> that chooses \<^verbatim>\<open>prefix\<close> and
  \<^verbatim>\<open>insert_line\<close>; the script branch reads the first line of the file as it is then.
\<close>

definition placement :: "path \<Rightarrow> string \<Rightarrow> string \<times> int" where
  "placement file_path content =
     (let suffix = lower (path_suffix file_path)
      in if suffix \<in> set C_EXTS then (''// '', 0)
         else if suffix \<in> set SCRIPT_EXTS then
           (let (first_line, f') = readline (readlines content)
            in if startswith first_line ''#!'' then (''# '', 1) else (''# '', 0))
         else if suffix \<in> set TEX_EXTS then (''% '', 0)
         else (''// '', 0))"

definition decide_notice :: "path \<Rightarrow> string \<Rightarrow> py_error + string" where
  "decide_notice file_path content =
     (let old = has_file_notice content 5
      in case (if old \<noteq> - 1 then remove_existing_notice content old else Inr content) of
           Inl e \<Rightarrow> Inl e
         | Inr content' \<Rightarrow>
             (let (prefix, insert_line) = placement file_path content'
              in Inr (insert_notice content' prefix insert_line)))"

section \<open>The guards on the work tree\<close>

text \<open>
  \<^verbatim>\<open>subprocess.run(..., check=True)\<close> has three outcomes: the command ran and exited
  with status 0 (its output is returned), the command ran and exited with another
  status (\<^verbatim>\<open>CalledProcessError\<close> is raised), or the command could not be started
  (\<^verbatim>\<open>OSError\<close> is raised, for instance \<^verbatim>\<open>FileNotFoundError\<close> where no \<^verbatim>\<open>git\<close> is
  installed). The three queries of the script are the fields of \<open>git\<close>.
\<close>

datatype completed = Returned string | CalledProcessError | NotStarted

record git =
  rev_parse_is_inside_work_tree :: completed
  rev_parse_show_toplevel :: completed
  status_porcelain :: completed

definition is_git_work_tree :: "git \<Rightarrow> py_error + bool" where
  "is_git_work_tree g =
     (case rev_parse_is_inside_work_tree g of
        Returned stdout \<Rightarrow> Inr (strip stdout = ''true'')
      | CalledProcessError \<Rightarrow> Inr False
      | NotStarted \<Rightarrow> Inl OSError)"

definition git_root :: "git \<Rightarrow> py_error + path" where
  "git_root g =
     (case rev_parse_show_toplevel g of
        Returned stdout \<Rightarrow> Inr (Path (strip stdout))
      | CalledProcessError \<Rightarrow> Inl (SystemExit 1)
      | NotStarted \<Rightarrow> Inl OSError)"

definition git_work_tree_clean :: "git \<Rightarrow> py_error + bool" where
  "git_work_tree_clean g =
     (case status_porcelain g of
        Returned stdout \<Rightarrow> (if strip stdout \<noteq> [] then Inr False else Inr True)
      | CalledProcessError \<Rightarrow> Inr False
      | NotStarted \<Rightarrow> Inl OSError)"

section \<open>Main\<close>

text \<open>
  The file system as \<^verbatim>\<open>main\<close> sees it. The operating system is asked with the
  string of a path: \<open>file_at\<close> gives the regular file that the string names, if it
  names one (two strings may name one file), \<open>text_of\<close> the text of each file,
  \<open>dirs\<close> the paths that \<^verbatim>\<open>rglob("*")\<close> yields where the string names a directory,
  and \<open>access_rw\<close> the answer of \<^verbatim>\<open>os.access(p, os.W_OK | os.R_OK)\<close>. What is
  printed is not modelled.
\<close>

record filesystem =
  file_at :: "string \<rightharpoonup> nat"
  text_of :: "nat \<Rightarrow> string"
  dirs :: "string \<rightharpoonup> path list"
  access_rw :: "string \<Rightarrow> bool"

definition is_file :: "filesystem \<Rightarrow> path \<Rightarrow> bool" where
  "is_file fs p = (file_at fs (path_str p) \<noteq> None)"

text \<open>
  \<^verbatim>\<open>decide_notice(path)\<close> on the file system: the file is rewritten unless an
  exception is raised first.
\<close>

definition decide_notice_file :: "filesystem \<Rightarrow> path \<Rightarrow> py_error option \<times> filesystem" where
  "decide_notice_file fs p =
     (case file_at fs (path_str p) of
        None \<Rightarrow> (Some OSError, fs)
      | Some f \<Rightarrow>
          (case decide_notice p (text_of fs f) of
             Inl e \<Rightarrow> (Some e, fs)
           | Inr content' \<Rightarrow> (None, fs\<lparr>text_of := (text_of fs)(f := content')\<rparr>)))"

fun rglob_loop :: "filesystem \<Rightarrow> path list \<Rightarrow> py_error option \<times> filesystem" where
  "rglob_loop fs [] = (None, fs)"
| "rglob_loop fs (file_path # rest) =
     (if \<not> is_file fs file_path \<or> \<not> access_rw fs (path_str file_path) then rglob_loop fs rest
      else (case decide_notice_file fs file_path of
              (Some e, fs') \<Rightarrow> (Some e, fs')
            | (None, fs') \<Rightarrow> rglob_loop fs' rest))"

fun args_loop :: "path \<Rightarrow> filesystem \<Rightarrow> string list \<Rightarrow> py_error option \<times> filesystem" where
  "args_loop root fs [] = (None, fs)"
| "args_loop root fs (p # ps) =
     (let path = (if \<not> is_absolute (Path p) then joinpath root (Path p) else Path p)
      in if is_file fs path then
           (case decide_notice_file fs path of
              (Some e, fs') \<Rightarrow> (Some e, fs')
            | (None, fs') \<Rightarrow> args_loop root fs' ps)
         else (case dirs fs (path_str path) of
                 Some entries \<Rightarrow>
                   (case rglob_loop fs entries of
                      (Some e, fs') \<Rightarrow> (Some e, fs')
                    | (None, fs') \<Rightarrow> args_loop root fs' ps)
               | None \<Rightarrow> args_loop root fs ps))"

text \<open>
  \<^verbatim>\<open>main()\<close> on the arguments \<^verbatim>\<open>sys.argv[1:]\<close>: the value returned or the exception
  raised, and the file system left behind.
\<close>

definition main :: "string list \<Rightarrow> git \<Rightarrow> filesystem \<Rightarrow> (py_error + int) \<times> filesystem" where
  "main args g fs =
     (if ''--help'' \<in> set args \<or> length args = 0 then (Inr 0, fs)
      else (case is_git_work_tree g of
              Inl e \<Rightarrow> (Inl e, fs)
            | Inr inside \<Rightarrow>
                if \<not> inside then (Inr (- 1), fs)
                else (case git_root g of
                        Inl e \<Rightarrow> (Inl e, fs)
                      | Inr root \<Rightarrow>
                          (case git_work_tree_clean g of
                             Inl e \<Rightarrow> (Inl e, fs)
                           | Inr clean \<Rightarrow>
                               if \<not> clean then (Inr (- 1), fs)
                               else (case args_loop root fs args of
                                       (Some e, fs') \<Rightarrow> (Inl e, fs')
                                     | (None, fs') \<Rightarrow> (Inr 0, fs'))))))"

text \<open>
  The exit status of \<^verbatim>\<open>sys.exit(main())\<close> on POSIX: the low eight bits of the
  code, and 1 after an exception that is not \<^verbatim>\<open>SystemExit\<close>.
\<close>

definition exit_status :: "py_error + int \<Rightarrow> int" where
  "exit_status r =
     (case r of
        Inr code \<Rightarrow> code mod 256
      | Inl (SystemExit code) \<Rightarrow> code mod 256
      | Inl e \<Rightarrow> 1)"

section \<open>Vocabulary of the properties\<close>

text \<open>
  A line is terminated when it ends in its only line feed. The lines of a text are
  well formed: every line but the last is terminated, and the last is not empty.
\<close>

definition terminated :: "string \<Rightarrow> bool" where
  "terminated l = (l \<noteq> [] \<and> last l = LF \<and> LF \<notin> set (butlast l))"

fun wf_lines :: "string list \<Rightarrow> bool" where
  "wf_lines [] = True"
| "wf_lines [l] = (l \<noteq> [] \<and> LF \<notin> set (butlast l))"
| "wf_lines (l # l' # ls) = (terminated l \<and> wf_lines (l' # ls))"

text \<open>
  What the loop of \<^verbatim>\<open>remove_existing_notice\<close> appends to \<^verbatim>\<open>out\<close> from the lines
  that are left, while it skips (\<open>skip_block\<close>) and while it scans (\<open>scan_block\<close>).
\<close>

fun skip_block :: "string list \<Rightarrow> string list" where
  "skip_block [] = []"
| "skip_block (l # ls) = (if strip l = [] then ls else skip_block ls)"

fun scan_block :: "string list \<Rightarrow> string list" where
  "scan_block [] = []"
| "scan_block (l # ls) =
     (if str_in NOTICE_MARKER l then skip_block ls else l # scan_block ls)"

text \<open>
  The first statement of \<^verbatim>\<open>decide_notice\<close>: the text of the file once a notice found
  in the first five lines is removed. The number of lines of a file that hold the marker.
\<close>

definition without_old :: "string \<Rightarrow> py_error + string" where
  "without_old content =
     (let old = has_file_notice content 5
      in if old \<noteq> - 1 then remove_existing_notice content old else Inr content)"

definition marker_lines :: "string list \<Rightarrow> nat" where
  "marker_lines ls = length (filter (str_in NOTICE_MARKER) ls)"

section \<open>Lines of a text\<close>

lemma concat_keepends: "concat (keepends s) = s"
  by (induction s) (auto split: list.splits)

lemma keepends_Nil_iff: "keepends s = [] \<longleftrightarrow> s = []"
  by (cases s) (auto split: list.splits)

lemma wf_lines_keepends: "wf_lines (keepends s)"
proof (induction s)
  case Nil
  show ?case by simp
next
  case (Cons c s)
  show ?case
  proof (cases "c = LF")
    case True
    with Cons show ?thesis
      by (cases "keepends s") (auto simp: terminated_def)
  next
    case False
    show ?thesis
    proof (cases "keepends s")
      case Nil
      with False show ?thesis by simp
    next
      case (Cons l ls)
      with False Cons.IH show ?thesis
        by (cases ls) (auto simp: terminated_def)
    qed
  qed
qed

lemma keepends_terminated_append:
  "terminated l \<Longrightarrow> keepends (l @ s) = l # keepends s"
proof (induction l)
  case Nil
  then show ?case by (simp add: terminated_def)
next
  case (Cons c l)
  show ?case
  proof (cases "l = []")
    case True
    with Cons.prems show ?thesis by (simp add: terminated_def)
  next
    case False
    with Cons.prems have "terminated l" "c \<noteq> LF"
      by (auto simp: terminated_def)
    with Cons.IH show ?thesis by simp
  qed
qed

lemma keepends_unterminated:
  "l \<noteq> [] \<Longrightarrow> LF \<notin> set l \<Longrightarrow> keepends l = [l]"
proof (induction l)
  case Nil
  then show ?case by simp
next
  case (Cons c l)
  show ?case
  proof (cases "l = []")
    case True
    with Cons.prems show ?thesis by simp
  next
    case False
    with Cons have "keepends l = [l]" by simp
    with Cons.prems show ?thesis by auto
  qed
qed

lemma keepends_single:
  assumes "l \<noteq> []" "LF \<notin> set (butlast l)"
  shows "keepends l = [l]"
proof (cases "last l = LF")
  case True
  with assms have "terminated l" by (simp add: terminated_def)
  from keepends_terminated_append [OF this, of "[]"] show ?thesis by simp
next
  case False
  from assms(1) have "l = butlast l @ [last l]" by simp
  then have "set l = set (butlast l) \<union> {last l}"
    by (metis list.set(1) list.simps(15) set_append sup_commute insert_is_Un)
  with False assms(2) have "LF \<notin> set l" by auto
  with assms(1) show ?thesis by (simp add: keepends_unterminated)
qed

lemma keepends_concat: "wf_lines ls \<Longrightarrow> keepends (concat ls) = ls"
proof (induction ls rule: wf_lines.induct)
  case 1
  show ?case by simp
next
  case (2 l)
  then show ?case by (simp add: keepends_single)
next
  case (3 l l' ls)
  then show ?case by (simp add: keepends_terminated_append)
qed

lemma universal_newlines_id: "CR \<notin> set s \<Longrightarrow> universal_newlines s = s"
  by (induction s rule: universal_newlines.induct) auto

lemma universal_newlines_no_CR: "CR \<notin> set (universal_newlines s)"
  by (induction s rule: universal_newlines.induct) (auto simp: CR_def LF_def)

lemma readlines_wf: "wf_lines (readlines c)"
  by (simp add: readlines_def wf_lines_keepends)

lemma concat_readlines: "concat (readlines c) = universal_newlines c"
  by (simp add: readlines_def concat_keepends)

lemma readlines_no_CR: "l \<in> set (readlines c) \<Longrightarrow> CR \<notin> set l"
proof -
  assume "l \<in> set (readlines c)"
  then have "set l \<subseteq> set (concat (readlines c))" by auto
  then show ?thesis
    using universal_newlines_no_CR [of c] by (auto simp: concat_readlines)
qed

lemma readlines_writelines:
  "wf_lines ls \<Longrightarrow> \<forall>l \<in> set ls. CR \<notin> set l \<Longrightarrow> readlines (writelines ls) = ls"
proof -
  assume wf: "wf_lines ls" and cr: "\<forall>l \<in> set ls. CR \<notin> set l"
  from cr have "CR \<notin> set (concat ls)" by auto
  then have "universal_newlines (concat ls) = concat ls"
    by (rule universal_newlines_id)
  with wf show ?thesis
    by (simp add: readlines_def writelines_def keepends_concat)
qed

lemma readlines_writelines_readlines:
  "readlines (writelines (readlines c)) = readlines c"
  by (rule readlines_writelines) (auto simp: readlines_wf readlines_no_CR)

section \<open>The loop of the remover\<close>

lemma item_nat: "k < length xs \<Longrightarrow> item xs (int k) = Inr (xs ! k)"
  by (simp add: item_def)

lemma remove_loop_run:
  "k \<le> length ls \<Longrightarrow>
   remove_loop ls [int k..int (length ls) - 1] sk out =
     Inr (out @ (if sk = 0 then scan_block (drop k ls)
                 else if sk = 1 then skip_block (drop k ls) else drop k ls))"
proof (induction "length ls - k" arbitrary: k sk out)
  case 0
  then have "k = length ls" by simp
  then show ?case by simp
next
  case (Suc n)
  then have lt: "k < length ls" and n: "n = length ls - Suc k" and le: "Suc k \<le> length ls"
    by simp_all
  have up: "[int k..int (length ls) - 1] = int k # [int (Suc k)..int (length ls) - 1]"
    using lt upto_rec1 [of "int k" "int (length ls) - 1"] by (simp add: add.commute)
  have dr: "drop k ls = ls ! k # drop (Suc k) ls"
    using lt by (simp add: Cons_nth_drop_Suc)
  note IH = Suc.hyps(1) [OF n le]
  show ?case
    unfolding up dr
    by (simp add: item_nat [OF lt] IH del: upto.simps of_nat_Suc)
qed

lemma remove_existing_notice_nat:
  "remove_existing_notice content (int n) =
     Inr (writelines (take n (readlines content) @ scan_block (drop n (readlines content))))"
proof (cases "n \<le> length (readlines content)")
  case True
  have sl: "slice_to (readlines content) (int n) = take n (readlines content)"
    using True by (simp add: slice_to_def slice_index_def)
  show ?thesis
    unfolding remove_existing_notice_def Let_def sl
    by (simp add: remove_loop_run [OF True] del: upto.simps)
next
  case False
  then have e: "[int n..int (length (readlines content)) - 1] = []"
    and sl: "slice_to (readlines content) (int n) = readlines content"
    by (simp_all add: slice_to_def slice_index_def)
  from False show ?thesis
    unfolding remove_existing_notice_def Let_def sl e by simp
qed

lemma remove_existing_notice_scan:
  assumes "0 \<le> start"
  shows "remove_existing_notice content start =
           Inr (writelines (take (nat start) (readlines content) @
                            scan_block (drop (nat start) (readlines content))))"
  using remove_existing_notice_nat [of content "nat start"] assms by simp

lemma scan_block_no_marker:
  "\<forall>l \<in> set xs. \<not> str_in NOTICE_MARKER l \<Longrightarrow> scan_block xs = xs"
  by (induction xs) auto

lemma scan_block_found:
  "\<forall>l \<in> set mid. \<not> str_in NOTICE_MARKER l \<Longrightarrow> str_in NOTICE_MARKER m \<Longrightarrow>
   scan_block (mid @ m # rest) = mid @ skip_block rest"
  by (induction mid) auto

lemma skip_block_found:
  "\<forall>l \<in> set body. strip l \<noteq> [] \<Longrightarrow> strip b = [] \<Longrightarrow>
   skip_block (body @ b # rest) = rest"
  by (induction body) auto

lemma skip_block_none:
  "\<forall>l \<in> set body. strip l \<noteq> [] \<Longrightarrow> skip_block body = []"
  by (induction body) auto

lemma notice_lines_eq:
  "notice_lines prefix =
     [prefix @ ''This file is licensed under the GNU GPL v3.'' @ [LF],
      prefix @ ''Copyright (C) 2026 Guanyuming He.'' @ [LF]]"
  by (simp add: notice_lines_def NOTICE_def LF_def CR_def is_linebreak_def)

lemma slice_index_insert_index:
  "slice_index lines (insert_index lines insert_line) =
     nat (min (max insert_line 0) (int (length lines)))"
  unfolding slice_index_def insert_index_def by (auto simp: min_def max_def)

section \<open>The detector\<close>

lemma has_file_notice_loop_none:
  "\<forall>l \<in> set (take (length lns) f). \<not> str_in NOTICE_MARKER l \<Longrightarrow>
   has_file_notice_loop f lns = - 1"
proof (induction lns arbitrary: f)
  case Nil
  show ?case by simp
next
  case (Cons ln lns)
  show ?case
  proof (cases f)
    case Nil
    with Cons.IH [of "[]"] show ?thesis by simp
  next
    case (Cons l ls)
    with Cons.prems have "\<not> str_in NOTICE_MARKER l"
      and "\<forall>l \<in> set (take (length lns) ls). \<not> str_in NOTICE_MARKER l"
      by simp_all
    with Cons.IH [of ls] Cons show ?thesis by (simp add: NOTICE_MARKER_def)
  qed
qed

lemma has_file_notice_loop_found:
  "\<forall>l \<in> set pre. \<not> str_in NOTICE_MARKER l \<Longrightarrow> str_in NOTICE_MARKER m \<Longrightarrow>
   length pre < length lns \<Longrightarrow>
   has_file_notice_loop (pre @ m # rest) lns = lns ! length pre"
proof (induction pre arbitrary: lns)
  case Nil
  then show ?case by (cases lns) (simp_all add: NOTICE_MARKER_def)
next
  case (Cons l pre)
  then obtain ln lns' where lns: "lns = ln # lns'" by (cases lns) auto
  with Cons.prems have "length pre < length lns'" by simp
  with Cons.IH [of lns'] Cons.prems lns show ?case
    by (simp add: NOTICE_MARKER_def)
qed

lemma has_file_notice_loop_range:
  "has_file_notice_loop f lns = - 1 \<or> has_file_notice_loop f lns \<in> set lns"
  by (induction lns arbitrary: f) (auto simp: Let_def split: prod.splits)

lemma range_5: "[0..(5::int) - 1] = [0, 1, 2, 3, 4]"
  by (simp add: upto_rec1)

lemma has_file_notice_5:
  "has_file_notice content 5 = has_file_notice_loop (readlines content) [0, 1, 2, 3, 4]"
  unfolding has_file_notice_def range_5 by (rule refl)

lemma has_file_notice_none:
  assumes "\<forall>l \<in> set (take 5 (readlines content)). \<not> str_in NOTICE_MARKER l"
  shows "has_file_notice content 5 = - 1"
proof -
  define lns where "lns = [0, 1, 2, 3, 4::int]"
  have "length lns = 5" by (simp add: lns_def)
  with assms have "\<forall>l \<in> set (take (length lns) (readlines content)). \<not> str_in NOTICE_MARKER l"
    by simp
  then have "has_file_notice_loop (readlines content) lns = - 1"
    by (rule has_file_notice_loop_none)
  then show ?thesis unfolding has_file_notice_5 lns_def .
qed

lemma has_file_notice_found:
  assumes "readlines content = pre @ m # rest"
    and "\<forall>l \<in> set pre. \<not> str_in NOTICE_MARKER l"
    and "str_in NOTICE_MARKER m"
    and "length pre < 5"
  shows "has_file_notice content 5 = int (length pre)"
proof -
  define lns where "lns = [0, 1, 2, 3, 4::int]"
  have len: "length pre < length lns" using assms(4) by (simp add: lns_def)
  have nth: "lns ! length pre = int (length pre)"
    using assms(4) unfolding lns_def
    by (auto simp: less_Suc_eq numeral_eq_Suc)
  have "has_file_notice_loop (pre @ m # rest) lns = lns ! length pre"
    using assms(2,3) len by (rule has_file_notice_loop_found)
  then show ?thesis
    unfolding has_file_notice_5 assms(1) nth unfolding lns_def .
qed

lemma has_file_notice_nonneg:
  "has_file_notice content 5 = - 1 \<or> 0 \<le> has_file_notice content 5"
proof -
  define lns where "lns = [0, 1, 2, 3, 4::int]"
  have "\<forall>i \<in> set lns. 0 \<le> i" by (simp add: lns_def)
  with has_file_notice_loop_range [of "readlines content" lns]
  have "has_file_notice_loop (readlines content) lns = - 1 \<or>
        0 \<le> has_file_notice_loop (readlines content) lns"
    by blast
  then show ?thesis unfolding has_file_notice_5 lns_def .
qed

lemma without_old_total: "\<exists>content'. without_old content = Inr content'"
  using has_file_notice_nonneg [of content]
  by (auto simp: without_old_def Let_def remove_existing_notice_scan)

lemma decide_notice_without_old:
  "decide_notice file_path content =
     (case without_old content of
        Inl e \<Rightarrow> Inl e
      | Inr content' \<Rightarrow>
          Inr (insert_notice content' (fst (placement file_path content'))
                 (snd (placement file_path content'))))"
  by (simp add: decide_notice_def without_old_def Let_def case_prod_unfold split: sum.splits)

section \<open>Writing lines and reading them back\<close>

lemma wf_lines_append:
  "\<forall>l \<in> set xs. terminated l \<Longrightarrow> wf_lines ys \<Longrightarrow> wf_lines (xs @ ys)"
proof (induction xs)
  case Nil
  then show ?case by simp
next
  case (Cons x xs)
  then have "wf_lines (xs @ ys)" and "terminated x" by simp_all
  then show ?case by (cases "xs @ ys") (simp_all add: terminated_def)
qed

lemma wf_lines_Cons: "wf_lines (l # ls) \<Longrightarrow> wf_lines ls"
  by (cases ls) simp_all

lemma wf_lines_drop: "wf_lines ls \<Longrightarrow> wf_lines (drop j ls)"
proof (induction j arbitrary: ls)
  case 0
  then show ?case by simp
next
  case (Suc j)
  then show ?case by (cases ls) (auto dest: wf_lines_Cons)
qed

lemma wf_lines_take_terminated:
  "wf_lines ls \<Longrightarrow> j < length ls \<Longrightarrow> \<forall>l \<in> set (take j ls). terminated l"
proof (induction ls arbitrary: j rule: wf_lines.induct)
  case 1
  then show ?case by simp
next
  case (2 l)
  then show ?case by simp
next
  case (3 l l' ls)
  show ?case
  proof (cases j)
    case 0
    then show ?thesis by simp
  next
    case (Suc j')
    with "3.prems" have "j' < length (l' # ls)" and "wf_lines (l' # ls)" and "terminated l"
      by simp_all
    with "3.IH" [of j'] Suc show ?thesis by simp
  qed
qed

lemma readlines_splice:
  assumes "\<forall>l \<in> set (take j (readlines content)). terminated l"
    and "\<forall>b \<in> set block. terminated b \<and> CR \<notin> set b"
  shows "readlines (writelines (take j (readlines content) @ block @ drop j (readlines content))) =
           take j (readlines content) @ block @ drop j (readlines content)"
proof (rule readlines_writelines)
  have "wf_lines (drop j (readlines content))"
    by (rule wf_lines_drop) (rule readlines_wf)
  then have "wf_lines (block @ drop j (readlines content))"
    using assms(2) by (simp add: wf_lines_append)
  then show "wf_lines (take j (readlines content) @ block @ drop j (readlines content))"
    using assms(1) by (rule wf_lines_append [rotated])
next
  show "\<forall>l \<in> set (take j (readlines content) @ block @ drop j (readlines content)). CR \<notin> set l"
    using assms(2) by (auto dest: in_set_takeD in_set_dropD readlines_no_CR)
qed

lemma startswith_append: "startswith (m @ s) m"
  by (induction m) simp_all

lemma startswith_str_in: "startswith x m \<Longrightarrow> str_in m x"
  by (cases x) (auto elim: startswith.elims)

lemma str_in_append: "str_in m x \<Longrightarrow> str_in m (p @ x)"
  by (induction p) simp_all

lemma str_in_middle: "str_in m (p @ m @ s)"
  by (rule str_in_append) (rule startswith_str_in, rule startswith_append)

lemma strip_Nil_iff: "strip s = [] \<longleftrightarrow> (\<forall>c \<in> set s. isspace c)"
proof
  assume "strip s = []"
  then have "\<forall>c \<in> set (dropWhile isspace s). isspace c"
    by (simp add: strip_def dropWhile_eq_Nil_conv)
  then have "dropWhile isspace s = []"
    using hd_dropWhile [of isspace s] by (cases "dropWhile isspace s") auto
  then show "\<forall>c \<in> set s. isspace c"
    by (simp add: dropWhile_eq_Nil_conv)
next
  assume "\<forall>c \<in> set s. isspace c"
  then have d: "dropWhile isspace s = []" by (simp add: dropWhile_eq_Nil_conv)
  show "strip s = []" unfolding strip_def d by simp
qed

lemma strip_LF: "strip [LF] = []"
  by (simp add: strip_def isspace_def LF_def)

lemma strip_copyright: "strip (prefix @ ''Copyright (C) 2026 Guanyuming He.'' @ [LF]) \<noteq> []"
proof -
  have "\<not> isspace (CHR ''C'')" by (simp add: isspace_def)
  then show ?thesis by (auto simp: strip_Nil_iff)
qed

lemma marker_in_first_notice_line:
  "str_in NOTICE_MARKER (prefix @ ''This file is licensed under the GNU GPL v3.'' @ [LF])"
proof -
  have "''This file is licensed under the GNU GPL v3.'' @ [LF] = NOTICE_MARKER @ (''.'' @ [LF])"
    by (simp add: NOTICE_MARKER_def)
  then show ?thesis by (simp only: str_in_middle)
qed

lemma scan_block_notice:
  "scan_block (notice_lines prefix @ [[LF]] @ rest) = rest"
  unfolding notice_lines_eq
  using marker_in_first_notice_line [of prefix] strip_copyright [of prefix] strip_LF
  by simp

lemma terminated_snoc: "LF \<notin> set s \<Longrightarrow> terminated (s @ [LF])"
  by (simp add: terminated_def)

lemma notice_block_terminated:
  assumes "LF \<notin> set prefix" and "CR \<notin> set prefix"
  shows "\<forall>b \<in> set (notice_lines prefix @ [[LF]]). terminated b \<and> CR \<notin> set b"
proof -
  have n: "LF \<notin> set ''This file is licensed under the GNU GPL v3.''"
    "LF \<notin> set ''Copyright (C) 2026 Guanyuming He.''"
    by (simp_all add: LF_def)
  have t1: "terminated ((prefix @ ''This file is licensed under the GNU GPL v3.'') @ [LF])"
    by (rule terminated_snoc) (use assms(1) n in simp)
  have t2: "terminated ((prefix @ ''Copyright (C) 2026 Guanyuming He.'') @ [LF])"
    by (rule terminated_snoc) (use assms(1) n in simp)
  have t3: "terminated [LF]" by (simp add: terminated_def)
  have c: "CR \<notin> set (''This file is licensed under the GNU GPL v3.'' @ [LF])"
    "CR \<notin> set (''Copyright (C) 2026 Guanyuming He.'' @ [LF])" "CR \<notin> set [LF]"
    by (simp_all add: CR_def LF_def)
  show ?thesis
    unfolding notice_lines_eq using t1 t2 t3 c assms(2) by simp
qed

lemma wf_lines_mem: "wf_lines ls \<Longrightarrow> l \<in> set ls \<Longrightarrow> l \<noteq> [] \<and> LF \<notin> set (butlast l)"
  by (induction ls rule: wf_lines.induct) (auto simp: terminated_def)

lemma readlines_mem_terminated:
  "l \<in> set (readlines content) \<Longrightarrow> last l = LF \<Longrightarrow> terminated l"
  using wf_lines_mem [OF readlines_wf, of l content] by (simp add: terminated_def)

section \<open>The inserted block\<close>

lemma placement_cases:
  "placement file_path content = (''// '', 0) \<or> placement file_path content = (''# '', 1) \<or>
   placement file_path content = (''# '', 0) \<or> placement file_path content = (''% '', 0)"
  by (simp add: placement_def Let_def case_prod_unfold)

lemma placement_shebang:
  assumes "placement file_path content = (prefix, 1)"
  shows "\<exists>s rest. readlines content = s # rest \<and> startswith s ''#!''"
proof (cases "readlines content")
  case Nil
  with assms show ?thesis
    by (simp add: placement_def Let_def split: if_splits)
next
  case (Cons s rest)
  with assms show ?thesis
    by (simp add: placement_def Let_def split: if_splits)
qed

lemma placement_cong:
  "readlines content = readlines content' \<Longrightarrow>
   placement file_path content = placement file_path content'"
  by (simp add: placement_def Let_def)

lemma insert_notice_cong:
  "readlines content = readlines content' \<Longrightarrow>
   insert_notice content prefix insert_line = insert_notice content' prefix insert_line"
  by (simp add: insert_notice_def)

lemma placement_prefix:
  assumes "placement file_path content = (prefix, insert_line)"
  shows "LF \<notin> set prefix \<and> CR \<notin> set prefix \<and>
         \<not> str_in NOTICE_MARKER (prefix @ ''Copyright (C) 2026 Guanyuming He.'' @ [LF])"
proof -
  from placement_cases [of file_path content] assms
  have "prefix = ''// '' \<or> prefix = ''# '' \<or> prefix = ''% ''" by auto
  then show ?thesis
    by (auto simp: LF_def CR_def NOTICE_MARKER_def)
qed

lemma insert_notice_lines:
  "insert_notice content prefix insert_line =
     writelines
       (take (nat (min (max insert_line 0) (int (length (readlines content))))) (readlines content) @
        (notice_lines prefix @ [[LF]]) @
        drop (nat (min (max insert_line 0) (int (length (readlines content))))) (readlines content))"
  unfolding insert_notice_def Let_def slice_to_def slice_from_def slice_index_insert_index
  by simp

lemma insert_notice_reread:
  assumes "LF \<notin> set prefix" and "CR \<notin> set prefix"
    and "j = nat (min (max insert_line 0) (int (length (readlines content))))"
    and "\<forall>l \<in> set (take j (readlines content)). terminated l"
  shows "readlines (insert_notice content prefix insert_line) =
           take j (readlines content) @ (notice_lines prefix @ [[LF]]) @ drop j (readlines content)"
  unfolding insert_notice_lines assms(3) [symmetric]
  using assms(4) notice_block_terminated [OF assms(1,2)]
  by (rule readlines_splice)

lemma has_file_notice_inserted:
  assumes "LF \<notin> set prefix" and "CR \<notin> set prefix"
    and "j = nat (min (max insert_line 0) (int (length (readlines content))))"
    and "\<forall>l \<in> set (take j (readlines content)). terminated l"
    and "\<forall>l \<in> set (take j (readlines content)). \<not> str_in NOTICE_MARKER l"
    and "j < 5"
  shows "has_file_notice (insert_notice content prefix insert_line) 5 = int j"
proof -
  have len: "length (take j (readlines content)) = j"
    unfolding assms(3) by simp
  have "readlines (insert_notice content prefix insert_line) =
          take j (readlines content) @
          (prefix @ ''This file is licensed under the GNU GPL v3.'' @ [LF]) #
          ([prefix @ ''Copyright (C) 2026 Guanyuming He.'' @ [LF], [LF]] @ drop j (readlines content))"
    unfolding insert_notice_reread [OF assms(1-4)] notice_lines_eq by simp
  from has_file_notice_found [OF this assms(5) marker_in_first_notice_line]
  show ?thesis using assms(6) len by simp
qed

lemma remove_existing_notice_inserted:
  assumes "LF \<notin> set prefix" and "CR \<notin> set prefix"
    and "j = nat (min (max insert_line 0) (int (length (readlines content))))"
    and "\<forall>l \<in> set (take j (readlines content)). terminated l"
  shows "remove_existing_notice (insert_notice content prefix insert_line) (int j) =
           Inr (writelines (readlines content))"
proof -
  have len: "length (take j (readlines content)) = j"
    unfolding assms(3) by simp
  show ?thesis
    unfolding remove_existing_notice_nat insert_notice_reread [OF assms(1-4)]
    using len scan_block_notice [of prefix "drop j (readlines content)"]
    by simp
qed

lemma marker_lines_append: "marker_lines (xs @ ys) = marker_lines xs + marker_lines ys"
  by (simp add: marker_lines_def)

lemma marker_lines_take_drop: "marker_lines (take j ls) + marker_lines (drop j ls) = marker_lines ls"
  using marker_lines_append [of "take j ls" "drop j ls"] by simp

lemma marker_lines_zero: "marker_lines ls = 0 \<longleftrightarrow> (\<forall>l \<in> set ls. \<not> str_in NOTICE_MARKER l)"
  by (simp add: marker_lines_def filter_empty_conv)

lemma marker_lines_notice:
  assumes "\<not> str_in NOTICE_MARKER (prefix @ ''Copyright (C) 2026 Guanyuming He.'' @ [LF])"
  shows "marker_lines (notice_lines prefix @ [[LF]]) = 1"
proof -
  have "\<not> str_in NOTICE_MARKER [LF]" by (simp add: NOTICE_MARKER_def LF_def)
  with assms marker_in_first_notice_line [of prefix] show ?thesis
    unfolding notice_lines_eq marker_lines_def by simp
qed

lemma marker_lines_splice:
  assumes "\<not> str_in NOTICE_MARKER (prefix @ ''Copyright (C) 2026 Guanyuming He.'' @ [LF])"
  shows "marker_lines (take j ls @ (notice_lines prefix @ [[LF]]) @ drop j ls) = Suc (marker_lines ls)"
proof -
  have "marker_lines (take j ls @ (notice_lines prefix @ [[LF]]) @ drop j ls) =
          marker_lines (take j ls) + (marker_lines (notice_lines prefix @ [[LF]]) +
          marker_lines (drop j ls))"
    by (simp only: marker_lines_append)
  also have "\<dots> = Suc (marker_lines (take j ls) + marker_lines (drop j ls))"
    by (simp add: marker_lines_notice [OF assms])
  finally show ?thesis by (simp only: marker_lines_take_drop)
qed

lemma wf_lines_hd: "wf_lines (s # rest) \<Longrightarrow> s \<noteq> [] \<and> LF \<notin> set (butlast s)"
  by (cases rest) (simp_all add: terminated_def)

lemma readlines_hd_terminated:
  "readlines content = s # rest \<Longrightarrow> last s = LF \<Longrightarrow> terminated s"
  using readlines_wf [of content] by (auto simp: terminated_def dest: wf_lines_hd)

lemma placement_index:
  assumes "placement file_path content = (prefix, insert_line)"
  shows "nat (min (max insert_line 0) (int (length (readlines content)))) = nat insert_line \<and>
         (insert_line = 0 \<or> insert_line = 1)"
proof -
  from placement_cases [of file_path content] assms
  consider "insert_line = 0" | "insert_line = 1" by auto
  then show ?thesis
  proof cases
    case 1
    then show ?thesis by simp
  next
    case 2
    with assms placement_shebang [of file_path content prefix]
    obtain s rest where "readlines content = s # rest" by auto
    with 2 show ?thesis by simp
  qed
qed

lemma decide_notice_insert:
  assumes "without_old content = Inr content'"
    and "placement file_path content' = (prefix, insert_line)"
  shows "decide_notice file_path content = Inr (insert_notice content' prefix insert_line)"
  by (simp add: decide_notice_without_old assms)

lemma without_old_none:
  "\<forall>l \<in> set (take 5 (readlines content)). \<not> str_in NOTICE_MARKER l \<Longrightarrow>
   without_old content = Inr content"
  by (simp add: without_old_def has_file_notice_none)

lemma without_old_inserted:
  assumes "placement file_path content = (prefix, insert_line)"
    and "\<forall>l \<in> set (take (nat insert_line) (readlines content)).
           terminated l \<and> \<not> str_in NOTICE_MARKER l"
  shows "without_old (insert_notice content prefix insert_line) =
           Inr (writelines (readlines content))"
proof -
  from placement_prefix [OF assms(1)] have p: "LF \<notin> set prefix" "CR \<notin> set prefix"
    by simp_all
  from placement_index [OF assms(1)]
  have j: "nat insert_line = nat (min (max insert_line 0) (int (length (readlines content))))"
    and k: "insert_line = 0 \<or> insert_line = 1" by simp_all
  from assms(2) have t: "\<forall>l \<in> set (take (nat insert_line) (readlines content)). terminated l"
    and m: "\<forall>l \<in> set (take (nat insert_line) (readlines content)). \<not> str_in NOTICE_MARKER l"
    by simp_all
  from k have lt: "nat insert_line < 5" and i: "int (nat insert_line) = insert_line" by auto
  have h: "has_file_notice (insert_notice content prefix insert_line) 5 = insert_line"
    using has_file_notice_inserted [OF p j t m lt] i by simp
  have r: "remove_existing_notice (insert_notice content prefix insert_line) insert_line =
             Inr (writelines (readlines content))"
    using remove_existing_notice_inserted [OF p j t] i by simp
  from k show ?thesis
    unfolding without_old_def Let_def h r by auto
qed

lemma take_first_line:
  assumes "insert_line = 0 \<or> insert_line = 1"
    and "insert_line = 1 \<longrightarrow> (\<exists>s rest. ls = s # rest \<and> P s)"
  shows "\<forall>l \<in> set (take (nat insert_line) ls). P l"
  using assms by auto

section \<open>The dispatch on the extension\<close>

text \<open>
  With no notice found in the first five lines, \<open>decide_notice\<close> writes the lines of the
  file with the block behind the first line for a script that starts with \<^verbatim>\<open>#!\<close>, and
  in front of all lines otherwise, with the prefix of the extension.
\<close>

lemma decide_notice_dispatch:
  assumes "has_file_notice content 5 = - 1"
  shows "(lower (path_suffix file_path) = ''.py'' \<longrightarrow> readlines content = s # rest \<longrightarrow>
            startswith s ''#!'' \<longrightarrow>
            decide_notice file_path content =
              Inr (writelines
                ([s] @
                 [''# This file is licensed under the GNU GPL v3.'' @ [LF],
                  ''# Copyright (C) 2026 Guanyuming He.'' @ [LF], [LF]] @ rest))) \<and>
         (lower (path_suffix file_path) = ''.cpp'' \<longrightarrow>
            decide_notice file_path content =
              Inr (writelines
                ([''// This file is licensed under the GNU GPL v3.'' @ [LF],
                  ''// Copyright (C) 2026 Guanyuming He.'' @ [LF], [LF]] @ readlines content))) \<and>
         (lower (path_suffix file_path) = ''.tex'' \<longrightarrow>
            decide_notice file_path content =
              Inr (writelines
                ([''% This file is licensed under the GNU GPL v3.'' @ [LF],
                  ''% Copyright (C) 2026 Guanyuming He.'' @ [LF], [LF]] @ readlines content))) \<and>
         (lower (path_suffix file_path) \<notin> set C_EXTS \<union> set SCRIPT_EXTS \<union> set TEX_EXTS \<longrightarrow>
            decide_notice file_path content =
              Inr (writelines
                ([''// This file is licensed under the GNU GPL v3.'' @ [LF],
                  ''// Copyright (C) 2026 Guanyuming He.'' @ [LF], [LF]] @ readlines content)))"
proof -
  have w: "without_old content = Inr content"
    using assms by (simp add: without_old_def)
  have d: "decide_notice file_path content =
             Inr (insert_notice content (fst (placement file_path content))
                    (snd (placement file_path content)))"
    by (simp add: decide_notice_without_old w)
  have zero: "\<And>prefix. insert_notice content prefix 0 =
      writelines (notice_lines prefix @ [[LF]] @ readlines content)"
    by (simp add: insert_notice_lines)
  have one: "\<And>prefix. readlines content = s # rest \<Longrightarrow> insert_notice content prefix 1 =
      writelines ([s] @ notice_lines prefix @ [[LF]] @ rest)"
    by (simp add: insert_notice_lines)
  have py: "lower (path_suffix file_path) = ''.py'' \<Longrightarrow> readlines content = s # rest \<Longrightarrow>
      startswith s ''#!'' \<Longrightarrow> placement file_path content = (''# '', 1)"
    by (simp add: placement_def C_EXTS_def SCRIPT_EXTS_def)
  have cpp: "lower (path_suffix file_path) = ''.cpp'' \<Longrightarrow> placement file_path content = (''// '', 0)"
    by (simp add: placement_def C_EXTS_def)
  have tex: "lower (path_suffix file_path) = ''.tex'' \<Longrightarrow> placement file_path content = (''% '', 0)"
    by (simp add: placement_def C_EXTS_def SCRIPT_EXTS_def TEX_EXTS_def)
  have other: "lower (path_suffix file_path) \<notin> set C_EXTS \<union> set SCRIPT_EXTS \<union> set TEX_EXTS \<Longrightarrow>
      placement file_path content = (''// '', 0)"
    by (simp add: placement_def)
  show ?thesis
    unfolding d using py cpp tex other
    by (auto simp: zero one notice_lines_eq)
qed

section \<open>Claims on the inserter and the remover\<close>

text \<open>
  C8 at the file \<^verbatim>\<open>#!/bin/sh\<close> with no line feed at its end, prefix \<^verbatim>\<open># \<close> and
  \<open>insert_line = 1\<close> (what \<open>decide_notice\<close> passes for a script with this text). The
  claim says that the block is spliced in before index 1 and that the original lines are
  preserved. The text written back starts with the first line of the notice glued onto
  the original line: read back, the file has three lines, the line \<^verbatim>\<open>#!/bin/sh\<close> is
  not one of them, and no line is the prefixed first line of the notice.
\<close>

theorem insert_notice_glues_unterminated_line:
  "readlines ''#!/bin/sh'' = [''#!/bin/sh''] \<and>
   insert_notice ''#!/bin/sh'' ''# '' 1 =
     ''#!/bin/sh# This file is licensed under the GNU GPL v3.'' @ [LF] @
     ''# Copyright (C) 2026 Guanyuming He.'' @ [LF] @ [LF] \<and>
   readlines (insert_notice ''#!/bin/sh'' ''# '' 1) =
     [''#!/bin/sh# This file is licensed under the GNU GPL v3.'' @ [LF],
      ''# Copyright (C) 2026 Guanyuming He.'' @ [LF],
      [LF]] \<and>
   ''#!/bin/sh'' \<notin> set (readlines (insert_notice ''#!/bin/sh'' ''# '' 1)) \<and>
   ''# This file is licensed under the GNU GPL v3.'' @ [LF]
     \<notin> set (readlines (insert_notice ''#!/bin/sh'' ''# '' 1))"
  by code_simp

text \<open>
  C7, as the code has it. The claim says that the lines from \<open>start_index\<close> up to the
  first line with the marker are dropped; the loop copies them. With the lines of the file
  cut into the lines before \<open>start\<close> (\<open>pre\<close>), the lines without the marker after them
  (\<open>mid\<close>), the first line with the marker (\<open>m\<close>), the lines that are not blank after
  it (\<open>body\<close>), the first blank line (\<open>b\<close>) and the rest: \<open>remove_existing_notice\<close>
  writes \<open>pre\<close>, \<open>mid\<close> and the rest; \<open>m\<close>, \<open>body\<close> and \<open>b\<close> are dropped, and a
  later line with the marker, which is in the rest, is copied.
\<close>

theorem remove_existing_notice_block:
  assumes "readlines content = pre @ mid @ [m] @ body @ [b] @ rest"
    and "start = int (length pre)"
    and "\<forall>l \<in> set mid. \<not> str_in NOTICE_MARKER l"
    and "str_in NOTICE_MARKER m"
    and "\<forall>l \<in> set body. strip l \<noteq> []"
    and "strip b = []"
  shows "remove_existing_notice content start = Inr (writelines (pre @ mid @ rest))"
proof -
  have "scan_block (mid @ m # body @ b # rest) = mid @ rest"
    using assms(3-6) by (simp add: scan_block_found skip_block_found)
  then show ?thesis
    unfolding assms(2) remove_existing_notice_nat assms(1) by simp
qed

theorem remove_existing_notice_block_witness:
  "remove_existing_notice
     (''a'' @ [LF] @ ''b'' @ [LF] @ ''// This file is licensed under the GNU GPL v3.'' @ [LF] @
      ''// Copyright'' @ [LF] @ [LF] @ ''This file is licensed under the GNU GPL v3'' @ [LF]) 1 =
   Inr (''a'' @ [LF] @ ''b'' @ [LF] @ ''This file is licensed under the GNU GPL v3'' @ [LF])"
proof -
  have r: "readlines
     (''a'' @ [LF] @ ''b'' @ [LF] @ ''// This file is licensed under the GNU GPL v3.'' @ [LF] @
      ''// Copyright'' @ [LF] @ [LF] @ ''This file is licensed under the GNU GPL v3'' @ [LF]) =
     [''a'' @ [LF]] @ [''b'' @ [LF]] @ [''// This file is licensed under the GNU GPL v3.'' @ [LF]] @
     [''// Copyright'' @ [LF]] @ [[LF]] @ [''This file is licensed under the GNU GPL v3'' @ [LF]]"
    by (simp add: readlines_def LF_def CR_def)
  have s: "(1::int) = int (length [''a'' @ [LF]])" by simp
  have m1: "\<forall>l \<in> set [''b'' @ [LF]]. \<not> str_in NOTICE_MARKER l"
    by (simp add: NOTICE_MARKER_def LF_def)
  have m2: "str_in NOTICE_MARKER (''// This file is licensed under the GNU GPL v3.'' @ [LF])"
    by (simp add: NOTICE_MARKER_def)
  have b1: "\<forall>l \<in> set [''// Copyright'' @ [LF]]. strip l \<noteq> []"
    by (simp add: strip_def isspace_def LF_def)
  have b2: "strip [LF] = []"
    by (simp add: strip_def isspace_def LF_def)
  show ?thesis
    using remove_existing_notice_block [OF r s m1 m2 b1 b2]
    by (simp add: writelines_def)
qed

text \<open>
  C7 as it is stated fails: in the file of the four lines \<^verbatim>\<open>a\<close>, the marker, a blank
  line and \<^verbatim>\<open>b\<close>, removal from index 0 keeps the line \<^verbatim>\<open>a\<close>, which is at
  \<open>start_index\<close> and before the line with the marker.
\<close>

theorem remove_existing_notice_keeps_lines_before_marker:
  "remove_existing_notice
     (''a'' @ [LF] @ ''This file is licensed under the GNU GPL v3'' @ [LF] @ [LF] @ ''b'' @ [LF]) 0 =
     Inr (''a'' @ [LF] @ ''b'' @ [LF]) \<and>
   remove_existing_notice
     (''a'' @ [LF] @ ''This file is licensed under the GNU GPL v3'' @ [LF] @ [LF] @ ''b'' @ [LF]) 0 \<noteq>
     Inr (''b'' @ [LF])"
  by code_simp

text \<open>
  C10. Where a line at or after \<open>start_index\<close> has the marker and no blank line comes
  after the first such line, \<open>remove_existing_notice\<close> removes every line from that line
  to the end of the file: it writes the lines before it (\<open>pre\<close> and \<open>mid\<close>) and nothing
  more.
\<close>

theorem remove_existing_notice_no_blank:
  assumes "readlines content = pre @ mid @ [m] @ body"
    and "start = int (length pre)"
    and "\<forall>l \<in> set mid. \<not> str_in NOTICE_MARKER l"
    and "str_in NOTICE_MARKER m"
    and "\<forall>l \<in> set body. strip l \<noteq> []"
  shows "remove_existing_notice content start = Inr (writelines (pre @ mid))"
proof -
  have "scan_block (mid @ m # body) = mid"
    using assms(3-5) by (simp add: scan_block_found skip_block_none)
  then show ?thesis
    unfolding assms(2) remove_existing_notice_nat assms(1) by simp
qed

theorem remove_existing_notice_no_blank_witness:
  "remove_existing_notice
     (''a'' @ [LF] @ ''b'' @ [LF] @ ''# This file is licensed under the GNU GPL v3.'' @ [LF] @
      ''x = 1'' @ [LF] @ ''y = 2'') 1 =
   Inr (''a'' @ [LF] @ ''b'' @ [LF])"
proof -
  have r: "readlines
     (''a'' @ [LF] @ ''b'' @ [LF] @ ''# This file is licensed under the GNU GPL v3.'' @ [LF] @
      ''x = 1'' @ [LF] @ ''y = 2'') =
     [''a'' @ [LF]] @ [''b'' @ [LF]] @ [''# This file is licensed under the GNU GPL v3.'' @ [LF]] @
     [''x = 1'' @ [LF], ''y = 2'']"
    by (simp add: readlines_def LF_def CR_def)
  have s: "(1::int) = int (length [''a'' @ [LF]])" by simp
  have m1: "\<forall>l \<in> set [''b'' @ [LF]]. \<not> str_in NOTICE_MARKER l"
    by (simp add: NOTICE_MARKER_def LF_def)
  have m2: "str_in NOTICE_MARKER (''# This file is licensed under the GNU GPL v3.'' @ [LF])"
    by (simp add: NOTICE_MARKER_def)
  have b1: "\<forall>l \<in> set [''x = 1'' @ [LF], ''y = 2'']. strip l \<noteq> []"
    by (simp add: strip_def isspace_def LF_def)
  show ?thesis
    using remove_existing_notice_no_blank [OF r s m1 m2 b1]
    by (simp add: writelines_def)
qed

section \<open>Claims on the guards\<close>

text \<open>
  C9, as the code has it: a query that runs and exits with a status other than 0 makes
  \<open>is_git_work_tree\<close> return false and \<open>git_work_tree_clean\<close> return false; neither
  raises.
\<close>

theorem guards_false_on_CalledProcessError:
  "(rev_parse_is_inside_work_tree g = CalledProcessError \<longrightarrow> is_git_work_tree g = Inr False) \<and>
   (status_porcelain g = CalledProcessError \<longrightarrow> git_work_tree_clean g = Inr False)"
  by (simp add: is_git_work_tree_def git_work_tree_clean_def)

theorem guards_false_on_CalledProcessError_witness:
  "is_git_work_tree
     \<lparr>rev_parse_is_inside_work_tree = CalledProcessError,
      rev_parse_show_toplevel = CalledProcessError,
      status_porcelain = CalledProcessError\<rparr> = Inr False \<and>
   git_work_tree_clean
     \<lparr>rev_parse_is_inside_work_tree = CalledProcessError,
      rev_parse_show_toplevel = CalledProcessError,
      status_porcelain = CalledProcessError\<rparr> = Inr False"
  using guards_false_on_CalledProcessError
    [of "\<lparr>rev_parse_is_inside_work_tree = CalledProcessError,
          rev_parse_show_toplevel = CalledProcessError,
          status_porcelain = CalledProcessError\<rparr>"]
  by simp

text \<open>
  C9 as it is stated fails: only \<^verbatim>\<open>CalledProcessError\<close> is caught, so a query that
  cannot be started makes both checks raise.
\<close>

theorem guards_raise_when_not_started:
  "is_git_work_tree
     \<lparr>rev_parse_is_inside_work_tree = NotStarted,
      rev_parse_show_toplevel = NotStarted,
      status_porcelain = NotStarted\<rparr> = Inl OSError \<and>
   git_work_tree_clean
     \<lparr>rev_parse_is_inside_work_tree = NotStarted,
      rev_parse_show_toplevel = NotStarted,
      status_porcelain = NotStarted\<rparr> = Inl OSError"
  by (simp add: is_git_work_tree_def git_work_tree_clean_def)

text \<open>
  C6. Guard: where the status query reports anything, \<open>main\<close> on arguments that are
  paths (there is at least one, and none is \<^verbatim>\<open>--help\<close>) leaves every file as it was
  and the exit status is not 0.
\<close>

theorem main_dirty_tree:
  assumes "args \<noteq> []"
    and "''--help'' \<notin> set args"
    and "status_porcelain g = Returned stdout"
    and "strip stdout \<noteq> []"
  shows "snd (main args g fs) = fs \<and> exit_status (fst (main args g fs)) \<noteq> 0"
proof -
  have clean: "git_work_tree_clean g = Inr False"
    using assms(3,4) by (simp add: git_work_tree_clean_def)
  show ?thesis
    using assms(1,2) clean
    by (auto simp: main_def exit_status_def git_root_def is_git_work_tree_def
        split: sum.splits completed.splits py_error.splits)
qed

theorem main_dirty_tree_witness:
  "snd (main [''src'']
          \<lparr>rev_parse_is_inside_work_tree = Returned (''true'' @ [LF]),
           rev_parse_show_toplevel = Returned (''/repo'' @ [LF]),
           status_porcelain = Returned ('' M src/a.c'' @ [LF])\<rparr>
          \<lparr>file_at = [''/repo/src'' \<mapsto> 0], text_of = (\<lambda>f. ''int x;''), dirs = Map.empty,
           access_rw = (\<lambda>p. True)\<rparr>) =
     \<lparr>file_at = [''/repo/src'' \<mapsto> 0], text_of = (\<lambda>f. ''int x;''), dirs = Map.empty,
           access_rw = (\<lambda>p. True)\<rparr> \<and>
   exit_status (fst (main [''src'']
          \<lparr>rev_parse_is_inside_work_tree = Returned (''true'' @ [LF]),
           rev_parse_show_toplevel = Returned (''/repo'' @ [LF]),
           status_porcelain = Returned ('' M src/a.c'' @ [LF])\<rparr>
          \<lparr>file_at = [''/repo/src'' \<mapsto> 0], text_of = (\<lambda>f. ''int x;''), dirs = Map.empty,
           access_rw = (\<lambda>p. True)\<rparr>)) \<noteq> 0"
proof -
  have a: "[''src''] \<noteq> []" by simp
  have h: "''--help'' \<notin> set [''src'']" by simp
  have s: "status_porcelain
          \<lparr>rev_parse_is_inside_work_tree = Returned (''true'' @ [LF]),
           rev_parse_show_toplevel = Returned (''/repo'' @ [LF]),
           status_porcelain = Returned ('' M src/a.c'' @ [LF])\<rparr> = Returned ('' M src/a.c'' @ [LF])"
    by simp
  have n: "strip ('' M src/a.c'' @ [LF]) \<noteq> []"
    by (simp add: strip_def isspace_def LF_def)
  show ?thesis
    using main_dirty_tree [OF a h s n] by simp
qed

section \<open>Claims on the per-file decision\<close>

text \<open>
  C4. Marker detection limit: where the marker first appears at line index 5 or later,
  \<open>has_file_notice\<close> with \<open>end = 5\<close> returns -1 and \<open>decide_notice\<close> removes nothing: it
  inserts the block into the unchanged text, so that the file read back holds all its old
  lines, the old notice among them, and one more line with the marker, two at least.
\<close>

theorem marker_beyond_scan_window:
  assumes "\<forall>l \<in> set (take 5 (readlines content)). \<not> str_in NOTICE_MARKER l"
    and "\<exists>l \<in> set (drop 5 (readlines content)). str_in NOTICE_MARKER l"
    and "placement file_path content = (prefix, insert_line)"
  shows "has_file_notice content 5 = - 1 \<and>
         decide_notice file_path content = Inr (insert_notice content prefix insert_line) \<and>
         readlines (insert_notice content prefix insert_line) =
           take (nat insert_line) (readlines content) @
           [prefix @ ''This file is licensed under the GNU GPL v3.'' @ [LF],
            prefix @ ''Copyright (C) 2026 Guanyuming He.'' @ [LF],
            [LF]] @
           drop (nat insert_line) (readlines content) \<and>
         marker_lines (readlines (insert_notice content prefix insert_line)) =
           Suc (marker_lines (readlines content)) \<and>
         2 \<le> marker_lines (readlines (insert_notice content prefix insert_line))"
proof -
  from placement_index [OF assms(3)]
  have j: "nat insert_line = nat (min (max insert_line 0) (int (length (readlines content))))"
    and k: "insert_line = 0 \<or> insert_line = 1" by simp_all
  from placement_prefix [OF assms(3)] have p: "LF \<notin> set prefix" "CR \<notin> set prefix"
    and c: "\<not> str_in NOTICE_MARKER (prefix @ ''Copyright (C) 2026 Guanyuming He.'' @ [LF])"
    by simp_all
  from assms(2) have "drop 5 (readlines content) \<noteq> []" by auto
  then have "5 < length (readlines content)" by simp
  with k have "nat insert_line < length (readlines content)" by auto
  with readlines_wf have t: "\<forall>l \<in> set (take (nat insert_line) (readlines content)). terminated l"
    by (rule wf_lines_take_terminated)
  have none: "has_file_notice content 5 = - 1"
    using assms(1) by (rule has_file_notice_none)
  have dec: "decide_notice file_path content = Inr (insert_notice content prefix insert_line)"
    using without_old_none [OF assms(1)] assms(3) by (rule decide_notice_insert)
  have lines: "readlines (insert_notice content prefix insert_line) =
           take (nat insert_line) (readlines content) @
           [prefix @ ''This file is licensed under the GNU GPL v3.'' @ [LF],
            prefix @ ''Copyright (C) 2026 Guanyuming He.'' @ [LF],
            [LF]] @
           drop (nat insert_line) (readlines content)"
    unfolding insert_notice_reread [OF p j t] notice_lines_eq by simp
  have count: "marker_lines (readlines (insert_notice content prefix insert_line)) =
          Suc (marker_lines (readlines content))"
    unfolding insert_notice_reread [OF p j t] by (rule marker_lines_splice [OF c])
  from assms(2) have "\<exists>l \<in> set (readlines content). str_in NOTICE_MARKER l"
    by (auto dest: in_set_dropD)
  then have "marker_lines (readlines content) \<noteq> 0"
    by (simp add: marker_lines_zero)
  with count have two: "2 \<le> marker_lines (readlines (insert_notice content prefix insert_line))"
    by simp
  from none dec lines count two show ?thesis by simp
qed

theorem marker_beyond_scan_window_witness:
  "has_file_notice
     (''a'' @ [LF] @ ''b'' @ [LF] @ ''c'' @ [LF] @ ''d'' @ [LF] @ ''e'' @ [LF] @
      ''// This file is licensed under the GNU GPL v3.'' @ [LF]) 5 = - 1 \<and>
   decide_notice (Path ''x.c'')
     (''a'' @ [LF] @ ''b'' @ [LF] @ ''c'' @ [LF] @ ''d'' @ [LF] @ ''e'' @ [LF] @
      ''// This file is licensed under the GNU GPL v3.'' @ [LF]) =
   Inr
     (''// This file is licensed under the GNU GPL v3.'' @ [LF] @
      ''// Copyright (C) 2026 Guanyuming He.'' @ [LF] @ [LF] @
      ''a'' @ [LF] @ ''b'' @ [LF] @ ''c'' @ [LF] @ ''d'' @ [LF] @ ''e'' @ [LF] @
      ''// This file is licensed under the GNU GPL v3.'' @ [LF]) \<and>
   2 \<le> marker_lines (readlines
     (''// This file is licensed under the GNU GPL v3.'' @ [LF] @
      ''// Copyright (C) 2026 Guanyuming He.'' @ [LF] @ [LF] @
      ''a'' @ [LF] @ ''b'' @ [LF] @ ''c'' @ [LF] @ ''d'' @ [LF] @ ''e'' @ [LF] @
      ''// This file is licensed under the GNU GPL v3.'' @ [LF]))"
proof -
  define content where "content =
     ''a'' @ [LF] @ ''b'' @ [LF] @ ''c'' @ [LF] @ ''d'' @ [LF] @ ''e'' @ [LF] @
      ''// This file is licensed under the GNU GPL v3.'' @ [LF]"
  define result where "result =
     ''// This file is licensed under the GNU GPL v3.'' @ [LF] @
      ''// Copyright (C) 2026 Guanyuming He.'' @ [LF] @ [LF] @
      ''a'' @ [LF] @ ''b'' @ [LF] @ ''c'' @ [LF] @ ''d'' @ [LF] @ ''e'' @ [LF] @
      ''// This file is licensed under the GNU GPL v3.'' @ [LF]"
  have r: "readlines content =
      [''a'' @ [LF], ''b'' @ [LF], ''c'' @ [LF], ''d'' @ [LF], ''e'' @ [LF],
       ''// This file is licensed under the GNU GPL v3.'' @ [LF]]"
    unfolding content_def by code_simp
  have h1: "\<forall>l \<in> set (take 5 (readlines content)). \<not> str_in NOTICE_MARKER l"
    unfolding r by (simp add: NOTICE_MARKER_def LF_def)
  have h2: "\<exists>l \<in> set (drop 5 (readlines content)). str_in NOTICE_MARKER l"
    unfolding r by (simp add: NOTICE_MARKER_def)
  have h3: "placement (Path ''x.c'') content = (''// '', 0)"
    unfolding content_def by code_simp
  have ins: "insert_notice content ''// '' 0 = result"
    unfolding content_def result_def by code_simp
  from marker_beyond_scan_window [OF h1 h2 h3, unfolded ins]
  have "has_file_notice content 5 = - 1 \<and> decide_notice (Path ''x.c'') content = Inr result \<and>
        2 \<le> marker_lines (readlines result)"
    by blast
  then show ?thesis by (simp only: content_def result_def)
qed




text \<open>
  C1, as the code has it. With \<open>content'\<close> the text once a notice found in the first five
  lines is removed: where the block goes to line 0, or goes behind a first line that ends
  in a line feed and does not hold the marker, running \<open>decide_notice\<close> on its own result
  gives that result again; and the result holds exactly one line with the marker where no
  line of \<open>content'\<close> holds it.
\<close>

theorem decide_notice_twice:
  assumes "without_old content = Inr content'"
    and "placement file_path content' = (prefix, insert_line)"
    and "insert_line = 1 \<longrightarrow>
           (\<exists>s rest. readlines content' = s # rest \<and> last s = LF \<and> \<not> str_in NOTICE_MARKER s)"
  shows "decide_notice file_path content = Inr (insert_notice content' prefix insert_line) \<and>
         decide_notice file_path (insert_notice content' prefix insert_line) =
           Inr (insert_notice content' prefix insert_line) \<and>
         ((\<forall>l \<in> set (readlines content'). \<not> str_in NOTICE_MARKER l) \<longrightarrow>
            marker_lines (readlines (insert_notice content' prefix insert_line)) = 1)"
proof -
  from placement_index [OF assms(2)]
  have j: "nat insert_line = nat (min (max insert_line 0) (int (length (readlines content'))))"
    and k: "insert_line = 0 \<or> insert_line = 1" by simp_all
  from placement_prefix [OF assms(2)] have p: "LF \<notin> set prefix" "CR \<notin> set prefix"
    and c: "\<not> str_in NOTICE_MARKER (prefix @ ''Copyright (C) 2026 Guanyuming He.'' @ [LF])"
    by simp_all
  from assms(3) have "insert_line = 1 \<longrightarrow>
      (\<exists>s rest. readlines content' = s # rest \<and> (terminated s \<and> \<not> str_in NOTICE_MARKER s))"
    by (auto dest: readlines_hd_terminated)
  with k have tm: "\<forall>l \<in> set (take (nat insert_line) (readlines content')).
      terminated l \<and> \<not> str_in NOTICE_MARKER l"
    by (rule take_first_line)
  then have t: "\<forall>l \<in> set (take (nat insert_line) (readlines content')). terminated l"
    by simp
  have first: "decide_notice file_path content = Inr (insert_notice content' prefix insert_line)"
    using assms(1,2) by (rule decide_notice_insert)
  have w: "without_old (insert_notice content' prefix insert_line) =
             Inr (writelines (readlines content'))"
    using assms(2) tm by (rule without_old_inserted)
  have same: "readlines (writelines (readlines content')) = readlines content'"
    by (rule readlines_writelines_readlines)
  have pl: "placement file_path (writelines (readlines content')) = (prefix, insert_line)"
    using placement_cong [OF same, of file_path] assms(2) by simp
  have second: "decide_notice file_path (insert_notice content' prefix insert_line) =
                  Inr (insert_notice content' prefix insert_line)"
    using decide_notice_insert [OF w pl] insert_notice_cong [OF same, of prefix insert_line]
    by simp
  have count: "marker_lines (readlines (insert_notice content' prefix insert_line)) =
                 Suc (marker_lines (readlines content'))"
    unfolding insert_notice_reread [OF p j t] by (rule marker_lines_splice [OF c])
  have "(\<forall>l \<in> set (readlines content'). \<not> str_in NOTICE_MARKER l) \<longrightarrow>
          marker_lines (readlines (insert_notice content' prefix insert_line)) = 1"
    unfolding count by (simp add: marker_lines_zero)
  with first second show ?thesis by simp
qed

theorem decide_notice_twice_witness:
  "decide_notice (Path ''x.py'')
     (''#!/usr/bin/env python3'' @ [LF] @ ''print(1)'' @ [LF]) =
   Inr
     (''#!/usr/bin/env python3'' @ [LF] @
      ''# This file is licensed under the GNU GPL v3.'' @ [LF] @
      ''# Copyright (C) 2026 Guanyuming He.'' @ [LF] @ [LF] @ ''print(1)'' @ [LF]) \<and>
   decide_notice (Path ''x.py'')
     (''#!/usr/bin/env python3'' @ [LF] @
      ''# This file is licensed under the GNU GPL v3.'' @ [LF] @
      ''# Copyright (C) 2026 Guanyuming He.'' @ [LF] @ [LF] @ ''print(1)'' @ [LF]) =
   Inr
     (''#!/usr/bin/env python3'' @ [LF] @
      ''# This file is licensed under the GNU GPL v3.'' @ [LF] @
      ''# Copyright (C) 2026 Guanyuming He.'' @ [LF] @ [LF] @ ''print(1)'' @ [LF]) \<and>
   marker_lines (readlines
     (''#!/usr/bin/env python3'' @ [LF] @
      ''# This file is licensed under the GNU GPL v3.'' @ [LF] @
      ''# Copyright (C) 2026 Guanyuming He.'' @ [LF] @ [LF] @ ''print(1)'' @ [LF])) = 1"
proof -
  define content where "content =
     ''#!/usr/bin/env python3'' @ [LF] @ ''print(1)'' @ [LF]"
  define result where "result =
     ''#!/usr/bin/env python3'' @ [LF] @
      ''# This file is licensed under the GNU GPL v3.'' @ [LF] @
      ''# Copyright (C) 2026 Guanyuming He.'' @ [LF] @ [LF] @ ''print(1)'' @ [LF]"
  have h1: "without_old content = Inr content"
    unfolding content_def by code_simp
  have h2: "placement (Path ''x.py'') content = (''# '', 1)"
    unfolding content_def by code_simp
  have r: "readlines content = [''#!/usr/bin/env python3'' @ [LF], ''print(1)'' @ [LF]]"
    unfolding content_def by code_simp
  have "last (''#!/usr/bin/env python3'' @ [LF]) = LF \<and>
        \<not> str_in NOTICE_MARKER (''#!/usr/bin/env python3'' @ [LF])"
    by (simp add: NOTICE_MARKER_def LF_def)
  then have h3: "(1::int) = 1 \<longrightarrow> (\<exists>s rest. readlines content = s # rest \<and> last s = LF \<and>
      \<not> str_in NOTICE_MARKER s)"
    unfolding r by blast
  have nm: "\<forall>l \<in> set (readlines content). \<not> str_in NOTICE_MARKER l"
    unfolding r by (simp add: NOTICE_MARKER_def LF_def)
  have ins: "insert_notice content ''# '' 1 = result"
    unfolding content_def result_def by code_simp
  from decide_notice_twice [OF h1 h2 h3, unfolded ins] nm
  have "decide_notice (Path ''x.py'') content = Inr result \<and>
        decide_notice (Path ''x.py'') result = Inr result \<and>
        marker_lines (readlines result) = 1"
    by blast
  then show ?thesis by (simp only: content_def result_def)
qed

text \<open>
  C1 as it is stated fails on a file that holds the notice twice: only the first block is
  removed, so \<open>decide_notice\<close> gives the file back as it was, with two blocks.
\<close>

theorem decide_notice_keeps_second_notice:
  "decide_notice (Path ''x.c'')
     (''// This file is licensed under the GNU GPL v3.'' @ [LF] @
      ''// Copyright (C) 2026 Guanyuming He.'' @ [LF] @ [LF] @
      ''// This file is licensed under the GNU GPL v3.'' @ [LF] @
      ''// Copyright (C) 2026 Guanyuming He.'' @ [LF] @ [LF] @ ''int x;'' @ [LF]) =
     Inr (''// This file is licensed under the GNU GPL v3.'' @ [LF] @
          ''// Copyright (C) 2026 Guanyuming He.'' @ [LF] @ [LF] @
          ''// This file is licensed under the GNU GPL v3.'' @ [LF] @
          ''// Copyright (C) 2026 Guanyuming He.'' @ [LF] @ [LF] @ ''int x;'' @ [LF]) \<and>
   marker_lines (readlines
     (''// This file is licensed under the GNU GPL v3.'' @ [LF] @
      ''// Copyright (C) 2026 Guanyuming He.'' @ [LF] @ [LF] @
      ''// This file is licensed under the GNU GPL v3.'' @ [LF] @
      ''// Copyright (C) 2026 Guanyuming He.'' @ [LF] @ [LF] @ ''int x;'' @ [LF])) = 2"
  by code_simp

text \<open>
  C5 at the file \<^verbatim>\<open>x.py\<close> whose whole text is \<^verbatim>\<open>#!/bin/sh\<close> with no line feed at its
  end: the file has no prior notice, its extension is \<^verbatim>\<open>.py\<close> and its first line starts
  with \<^verbatim>\<open>#!\<close>, so the claim says that the notice is inserted starting at line index 1.
  \<open>decide_notice\<close> chooses the prefix \<^verbatim>\<open># \<close> and \<open>insert_line = 1\<close>, and the first line of
  the notice is written onto line 0, behind the text of the first line; line 1 of the file
  is the second line of the notice.
\<close>

theorem decide_notice_glues_shebang:
  "has_file_notice ''#!/bin/sh'' 5 = - 1 \<and>
   lower (path_suffix (Path ''x.py'')) = ''.py'' \<and>
   placement (Path ''x.py'') ''#!/bin/sh'' = (''# '', 1) \<and>
   decide_notice (Path ''x.py'') ''#!/bin/sh'' =
     Inr (''#!/bin/sh# This file is licensed under the GNU GPL v3.'' @ [LF] @
          ''# Copyright (C) 2026 Guanyuming He.'' @ [LF] @ [LF]) \<and>
   readlines
     (''#!/bin/sh# This file is licensed under the GNU GPL v3.'' @ [LF] @
      ''# Copyright (C) 2026 Guanyuming He.'' @ [LF] @ [LF]) =
     [''#!/bin/sh# This file is licensed under the GNU GPL v3.'' @ [LF],
      ''# Copyright (C) 2026 Guanyuming He.'' @ [LF],
      [LF]]"
  by code_simp

text \<open>
  C2, as the code has it. Reading translates every carriage return, so a file that holds
  one does not come back; and the block has to start on a line of its own. For every file
  with no prior notice and no carriage return, every prefix without a line feed or a
  carriage return, and every \<open>insert_line\<close> such that the lines before the insertion index
  \<open>j\<close> end in a line feed: the first line of the notice is line \<open>j\<close> of the file written by
  \<open>insert_notice\<close>, the detector finds it there when \<open>j < 5\<close>, and
  \<open>remove_existing_notice\<close> at \<open>j\<close> restores the original text exactly.
\<close>

theorem insert_then_remove_restores:
  assumes "\<forall>l \<in> set (readlines content). \<not> str_in NOTICE_MARKER l"
    and "CR \<notin> set content"
    and "LF \<notin> set prefix" and "CR \<notin> set prefix"
    and "j = nat (min (max insert_line 0) (int (length (readlines content))))"
    and "\<forall>l \<in> set (take j (readlines content)). last l = LF"
  shows "readlines (insert_notice content prefix insert_line) ! j =
           prefix @ ''This file is licensed under the GNU GPL v3.'' @ [LF] \<and>
         (j < 5 \<longrightarrow> has_file_notice (insert_notice content prefix insert_line) 5 = int j) \<and>
         remove_existing_notice (insert_notice content prefix insert_line) (int j) = Inr content"
proof -
  have t: "\<forall>l \<in> set (take j (readlines content)). terminated l"
    using assms(6) by (auto dest: in_set_takeD intro: readlines_mem_terminated)
  have m: "\<forall>l \<in> set (take j (readlines content)). \<not> str_in NOTICE_MARKER l"
    using assms(1) by (auto dest: in_set_takeD)
  have len: "length (take j (readlines content)) = j"
    unfolding assms(5) by simp
  have "readlines (insert_notice content prefix insert_line) =
          take j (readlines content) @
          (prefix @ ''This file is licensed under the GNU GPL v3.'' @ [LF]) #
          ([prefix @ ''Copyright (C) 2026 Guanyuming He.'' @ [LF], [LF]] @ drop j (readlines content))"
    unfolding insert_notice_reread [OF assms(3,4,5) t] notice_lines_eq by simp
  then have line: "readlines (insert_notice content prefix insert_line) ! j =
      prefix @ ''This file is licensed under the GNU GPL v3.'' @ [LF]"
    using nth_append_length [of "take j (readlines content)"] len by simp
  have found: "j < 5 \<longrightarrow> has_file_notice (insert_notice content prefix insert_line) 5 = int j"
    using has_file_notice_inserted [OF assms(3,4,5) t m] by simp
  have "writelines (readlines content) = content"
    using assms(2) by (simp add: writelines_def concat_readlines universal_newlines_id)
  with remove_existing_notice_inserted [OF assms(3,4,5) t]
  have restored: "remove_existing_notice (insert_notice content prefix insert_line) (int j) = Inr content"
    by simp
  from line found restored show ?thesis by simp
qed

theorem insert_then_remove_restores_witness:
  "insert_notice (''int x;'' @ [LF] @ ''int y;'') ''// '' 1 =
     ''int x;'' @ [LF] @ ''// This file is licensed under the GNU GPL v3.'' @ [LF] @
     ''// Copyright (C) 2026 Guanyuming He.'' @ [LF] @ [LF] @ ''int y;'' \<and>
   has_file_notice
     (''int x;'' @ [LF] @ ''// This file is licensed under the GNU GPL v3.'' @ [LF] @
      ''// Copyright (C) 2026 Guanyuming He.'' @ [LF] @ [LF] @ ''int y;'') 5 = 1 \<and>
   remove_existing_notice
     (''int x;'' @ [LF] @ ''// This file is licensed under the GNU GPL v3.'' @ [LF] @
      ''// Copyright (C) 2026 Guanyuming He.'' @ [LF] @ [LF] @ ''int y;'') 1 =
     Inr (''int x;'' @ [LF] @ ''int y;'')"
proof -
  define content where "content = ''int x;'' @ [LF] @ ''int y;''"
  define result where "result =
     ''int x;'' @ [LF] @ ''// This file is licensed under the GNU GPL v3.'' @ [LF] @
     ''// Copyright (C) 2026 Guanyuming He.'' @ [LF] @ [LF] @ ''int y;''"
  have r: "readlines content = [''int x;'' @ [LF], ''int y;'']"
    unfolding content_def by code_simp
  have h1: "\<forall>l \<in> set (readlines content). \<not> str_in NOTICE_MARKER l"
    unfolding r by (simp add: NOTICE_MARKER_def LF_def)
  have h2: "CR \<notin> set content"
    unfolding content_def by (simp add: CR_def LF_def)
  have h3: "LF \<notin> set ''// ''" and h4: "CR \<notin> set ''// ''"
    by (simp_all add: CR_def LF_def)
  have h5: "(1::nat) = nat (min (max 1 0) (int (length (readlines content))))"
    unfolding r by simp
  have h6: "\<forall>l \<in> set (take 1 (readlines content)). last l = LF"
    unfolding r by simp
  have ins: "insert_notice content ''// '' 1 = result"
    unfolding content_def result_def by code_simp
  from insert_then_remove_restores [OF h1 h2 h3 h4 h5 h6, unfolded ins]
  have "has_file_notice result 5 = 1 \<and> remove_existing_notice result 1 = Inr content"
    by simp
  with ins have "insert_notice content ''// '' 1 = result \<and> has_file_notice result 5 = 1 \<and>
      remove_existing_notice result 1 = Inr content"
    by blast
  then show ?thesis by (simp only: content_def result_def)
qed

text \<open>
  C2 as it is stated fails on a file with the line ends of another platform: the line
  \<^verbatim>\<open>int x;\<close> ended by a carriage return and a line feed holds no notice, and inserting
  and removing writes it back ended by a line feed alone.
\<close>

theorem insert_then_remove_changes_line_ends:
  "marker_lines (readlines (''int x;'' @ [CR, LF])) = 0 \<and>
   has_file_notice (insert_notice (''int x;'' @ [CR, LF]) ''// '' 0) 5 = 0 \<and>
   remove_existing_notice (insert_notice (''int x;'' @ [CR, LF]) ''// '' 0) 0 =
     Inr (''int x;'' @ [LF]) \<and>
   remove_existing_notice (insert_notice (''int x;'' @ [CR, LF]) ''// '' 0) 0 \<noteq>
     Inr (''int x;'' @ [CR, LF])"
  by code_simp

end
